theory Spec2Isabelle
  imports Main "HOL-Library.Word" "HOL-Library.FSet"
begin

unbundle bit_operations_syntax

section \<open>The candidate filter of the converter (converter/candidate\_filter.cc)\<close>

text \<open>
  The class \<open>CandidateFilter\<close> looks at the conversion candidates of one segment, one at a
  time, and answers for each whether it is kept (\<open>GOOD_CANDIDATE\<close>), dropped
  (\<open>BAD_CANDIDATE\<close>) or dropped together with everything after it (\<open>STOP_ENUMERATION\<close>).
  It owns two members: the set \<open>seen_\<close> of the values kept so far and the pointer
  \<open>top_candidate_\<close> to the candidate the costs are compared with.
\<close>

subsection \<open>Data\<close>

text \<open>
  \<open>int\<close> and \<open>int32\<close> are 32-bit two's complement integers: a \<open>32 word\<close>, read with
  \<open>sint\<close> and compared with the signed order \<open><s\<close>. The sum of two of them is the machine
  addition, which wraps around modulo \<open>2 ^ 32\<close>: C++ leaves the overflow of a signed sum
  undefined, and the sums of the filter are compiled to plain additions. The costs are
  \<open>int\<close> because \<open>max(kMinCost, top_candidate_->cost)\<close> is \<open>std::max\<close> on two values of one
  type. The connection ids \<open>lid\<close> and \<open>rid\<close> are \<open>uint16\<close> and \<open>learning_type\<close> is a \<open>uint32\<close>
  bit field (converter/segments.h and converter/node.h); the filter only compares the ids
  for equality and tests one bit of the learning type.
\<close>

type_synonym int32 = "32 word"
type_synonym uint16 = "16 word"
type_synonym uint32 = "32 word"

text \<open>A lattice node; the filter reads only its two connection ids.\<close>

datatype Node = Node (lid: uint16) (rid: uint16)

text \<open>
  \<open>Segment::Candidate\<close>, with the fields the filter reads. The member \<open>value\<close> is a
  \<open>std::string\<close>; \<open>nodes\<close> is a \<open>vector<const Node *>\<close>, here the vector of the nodes
  pointed to.
\<close>

record Candidate =
  "value" :: string
  cost :: int32
  structure_cost :: int32
  lid :: uint16
  rid :: uint16
  learning_type :: uint32
  nodes :: "Node list"

datatype ResultType = GOOD_CANDIDATE | BAD_CANDIDATE | STOP_ENUMERATION

text \<open>
  The members of \<open>CandidateFilter\<close>. \<open>seen_\<close> is a \<open>std::set<string>\<close>, a finite set;
  \<open>top_candidate_\<close> is a pointer to a candidate that the filter never writes through,
  \<open>None\<close> for \<open>NULL\<close> and otherwise the candidate pointed to. (A name cannot end in an
  underscore here, so the members are \<open>seen\<close> and \<open>top_candidate\<close>.)
\<close>

record CandidateFilter =
  seen :: "string fset"
  top_candidate :: "Candidate option"

text \<open>
  What the filter uses and this file does not define: the bit \<open>CONTEXT_SENSITIVE\<close> of
  \<open>Segment::Candidate\<close>, \<open>Util::CharsLen\<close> and the three queries of \<open>POSMatcher\<close>. They are
  parameters of the model.
\<close>

record Collaborators =
  CONTEXT_SENSITIVE :: uint32
  CharsLen :: "string \<Rightarrow> nat"
  IsNounPrefix :: "uint16 \<Rightarrow> bool"
  GetLastNameId :: uint16
  GetFirstNameId :: uint16

subsection \<open>Constants\<close>

definition kMaxCandidatesSize :: nat where "kMaxCandidatesSize = 200"
definition kMinCost :: int32 where "kMinCost = 100"
definition kCostOffset :: int32 where "kCostOffset = 6907"
definition kStructureCostOffset :: int32 where "kStructureCostOffset = 3453"
definition kMinStructureCostOffset :: int32 where "kMinStructureCostOffset = 1151"
definition kStopEnmerationCacheSize :: nat where "kStopEnmerationCacheSize = 15"
definition INT_MAX :: int32 where "INT_MAX = 2147483647"

text \<open>\<open>std::max\<close> on \<open>int\<close>: \<open>(a < b) ? b : a\<close>, with the signed comparison.\<close>

definition max_int :: "int32 \<Rightarrow> int32 \<Rightarrow> int32" where
  "max_int a b = (if a <s b then b else a)"

subsection \<open>Failures\<close>

text \<open>
  Two things can go wrong while a candidate is filtered: \<open>CHECK(top_candidate_)\<close> aborts on
  a null pointer, and \<open>nodes[0]\<close> on an empty vector reads past its end. Both are results
  of the model, so that their absence is a theorem and not an assumption.
\<close>

datatype fault = CheckFailed | OutOfRange

text \<open>\<open>v[i]\<close> on a \<open>std::vector\<close>.\<close>

definition at :: "'a list \<Rightarrow> nat \<Rightarrow> fault + 'a" where
  "at v i = (if i < length v then Inr (v ! i) else Inl OutOfRange)"

subsection \<open>The operations\<close>

text \<open>\<open>CandidateFilter::CandidateFilter\<close> and \<open>CandidateFilter::Reset\<close>.\<close>

definition NewCandidateFilter :: CandidateFilter where
  "NewCandidateFilter = \<lparr>seen = {||}, top_candidate = None\<rparr>"

definition Reset :: "CandidateFilter \<Rightarrow> CandidateFilter" where
  "Reset f = f\<lparr>seen := {||}, top_candidate := None\<rparr>"

text \<open>
  The test of the noisy prefix pattern,
  \<^verbatim>\<open>candidate_size >= 3 && candidate->nodes.size() > 1 &&
  candidate->nodes[0]->lid == candidate->nodes[0]->rid &&
  POSMatcher::IsNounPrefix(candidate->nodes[0]->lid)\<close>:
  \<open>&&\<close> evaluates from the left and stops at the first false operand, so the vector is
  read only when the two tests before it hold.
\<close>

definition noisy_prefix :: "Collaborators \<Rightarrow> nat \<Rightarrow> Candidate \<Rightarrow> fault + bool" where
  "noisy_prefix P candidate_size candidate =
     (if candidate_size \<ge> 3 \<and> length (nodes candidate) > 1 then
        (case at (nodes candidate) 0 of
           Inl e \<Rightarrow> Inl e
         | Inr n0 \<Rightarrow> Inr (Node.lid n0 = Node.rid n0 \<and> IsNounPrefix P (Node.lid n0)))
      else Inr False)"

text \<open>
  \<open>CandidateFilter::FilterCandidateInternal\<close>. The result is the value returned together
  with the filter after the call: the only member the function writes is \<open>top_candidate_\<close>.
  \<open>candidate_size\<close> is a \<open>size_t\<close>; the set cannot hold so many strings that
  \<open>candidate_size + 1\<close> wraps, so it is a natural number here.
\<close>

definition FilterCandidateInternal ::
  "Collaborators \<Rightarrow> CandidateFilter \<Rightarrow> Candidate \<Rightarrow> fault + (ResultType \<times> CandidateFilter)" where
  "FilterCandidateInternal P f0 candidate =
     (if learning_type candidate AND CONTEXT_SENSITIVE P \<noteq> 0 then Inr (GOOD_CANDIDATE, f0)
      else
        let candidate_size = fcard (seen f0);
            f = (if top_candidate f0 = None \<or> candidate_size = 0
                 then f0\<lparr>top_candidate := Some candidate\<rparr> else f0)
        in case top_candidate f of
             None \<Rightarrow> Inl CheckFailed
           | Some top_cand \<Rightarrow>
               if candidate_size + 1 \<ge> kMaxCandidatesSize then Inr (STOP_ENUMERATION, f)
               else if value candidate |\<in>| seen f then Inr (BAD_CANDIDATE, f)
               else if length (nodes candidate) = 1 then Inr (GOOD_CANDIDATE, f)
               else if CharsLen P (value candidate) = 1 then Inr (GOOD_CANDIDATE, f)
               else
                 let top_cost = max_int kMinCost (cost top_cand);
                     top_structure_cost = max_int kMinCost (structure_cost top_cand)
                 in if candidate_size < 3 \<and> cost candidate <s top_cost + 2302 \<and>
                       structure_cost candidate <s 6907
                    then Inr (GOOD_CANDIDATE, f)
                    else
                      (case noisy_prefix P candidate_size candidate of
                        Inl e \<Rightarrow> Inl e
                      | Inr True \<Rightarrow> Inr (BAD_CANDIDATE, f)
                      | Inr False \<Rightarrow>
                          let cost_offset =
                                (if lid candidate = GetLastNameId P \<or>
                                    lid candidate = GetFirstNameId P
                                 then INT_MAX else kCostOffset)
                          in if top_cost + cost_offset <s cost candidate \<and>
                                top_structure_cost + kMinStructureCostOffset
                                  <s structure_cost candidate
                             then (if candidate_size < kStopEnmerationCacheSize
                                   then Inr (BAD_CANDIDATE, f)
                                   else Inr (STOP_ENUMERATION, f))
                             else if top_structure_cost + kStructureCostOffset
                                       <s structure_cost candidate
                             then Inr (BAD_CANDIDATE, f)
                             else Inr (GOOD_CANDIDATE, f)))"

text \<open>\<open>CandidateFilter::FilterCandidate\<close>: a good candidate's value is inserted into \<open>seen_\<close>.\<close>

definition FilterCandidate ::
  "Collaborators \<Rightarrow> CandidateFilter \<Rightarrow> Candidate \<Rightarrow> fault + (ResultType \<times> CandidateFilter)" where
  "FilterCandidate P f candidate =
     (case FilterCandidateInternal P f candidate of
        Inl e \<Rightarrow> Inl e
      | Inr (result, f') \<Rightarrow>
          if result \<noteq> GOOD_CANDIDATE then Inr (result, f')
          else Inr (result, f'\<lparr>seen := finsert (value candidate) (seen f')\<rparr>))"

subsection \<open>Notions used in the statements\<close>

text \<open>The first test of \<open>FilterCandidateInternal\<close>: the candidate's cost depends on the context.\<close>

abbreviation is_context_sensitive :: "Collaborators \<Rightarrow> Candidate \<Rightarrow> bool" where
  "is_context_sensitive P candidate \<equiv> learning_type candidate AND CONTEXT_SENSITIVE P \<noteq> 0"

text \<open>
  The filter after the assignment
  \<^verbatim>\<open>if (top_candidate_ == NULL || candidate_size == 0) top_candidate_ = candidate;\<close>
  of \<open>FilterCandidateInternal\<close>.
\<close>

definition established :: "CandidateFilter \<Rightarrow> Candidate \<Rightarrow> CandidateFilter" where
  "established f candidate =
     (if top_candidate f = None \<or> seen f = {||}
      then f\<lparr>top_candidate := Some candidate\<rparr> else f)"

text \<open>
  The calls of one request: the converter resets the filter and hands it the candidates in
  turn. \<open>feed\<close> gives the results of the calls, in order, and the filter after the last.
\<close>

fun feed ::
  "Collaborators \<Rightarrow> CandidateFilter \<Rightarrow> Candidate list \<Rightarrow> fault + (ResultType list \<times> CandidateFilter)" where
  "feed P f [] = Inr ([], f)"
| "feed P f (c # cs) =
     (case FilterCandidate P f c of
        Inl e \<Rightarrow> Inl e
      | Inr (r, f') \<Rightarrow>
          (case feed P f' cs of
             Inl e \<Rightarrow> Inl e
           | Inr (rs, f'') \<Rightarrow> Inr (r # rs, f'')))"

text \<open>The candidates of \<open>cs\<close> whose call returned \<open>GOOD_CANDIDATE\<close>.\<close>

definition accepted :: "ResultType list \<Rightarrow> Candidate list \<Rightarrow> Candidate list" where
  "accepted rs cs = map snd (filter (\<lambda>(r, c). r = GOOD_CANDIDATE) (zip rs cs))"

subsection \<open>Inputs for the examples\<close>

text \<open>
  Collaborators for the examples: the context-sensitive bit is 2, every character is one
  byte, id 50 is the noun prefix, 60 and 61 are the last and first name.
\<close>

definition example_P :: Collaborators where
  "example_P = \<lparr>CONTEXT_SENSITIVE = 2, CharsLen = length, IsNounPrefix = (\<lambda>i. i = 50),
     GetLastNameId = 60, GetFirstNameId = 61\<rparr>"

text \<open>A candidate of two nodes, given by its value, costs, left id and learning type.\<close>

definition example_candidate ::
  "string \<Rightarrow> int32 \<Rightarrow> int32 \<Rightarrow> uint16 \<Rightarrow> uint32 \<Rightarrow> Candidate" where
  "example_candidate v c sc l lt =
     \<lparr>value = v, cost = c, structure_cost = sc, lid = l, rid = l, learning_type = lt,
      nodes = [Node 1 2, Node 3 4]\<rparr>"

text \<open>The same with no node at all.\<close>

definition example_empty_candidate :: "string \<Rightarrow> int32 \<Rightarrow> int32 \<Rightarrow> Candidate" where
  "example_empty_candidate v c sc = (example_candidate v c sc 5 0)\<lparr>nodes := []\<rparr>"

text \<open>\<open>n\<close> values, all different: \<open>x\<close>, \<open>xx\<close>, \<open>xxx\<close> and so on.\<close>

definition example_values :: "nat \<Rightarrow> string fset" where
  "example_values n = fset_of_list (map (\<lambda>k. replicate (Suc k) CHR ''x'') [0..<n])"

section \<open>Properties\<close>

subsection \<open>Evaluation and arithmetic\<close>

lemmas filter_constants =
  kMaxCandidatesSize_def kMinCost_def kCostOffset_def kStructureCostOffset_def
  kMinStructureCostOffset_def kStopEnmerationCacheSize_def INT_MAX_def

lemmas filter_eval =
  FilterCandidate_def FilterCandidateInternal_def noisy_prefix_def at_def max_int_def
  Let_def filter_constants word_sless_alt fcard_fempty fcard_finsert_if
  example_P_def example_candidate_def example_empty_candidate_def

lemma fcard_example_values: "fcard (example_values n) = n"
proof -
  define g where "g = (\<lambda>k. replicate (Suc k) CHR ''x'')"
  have inj: "inj_on g {0..<n}"
  proof (rule inj_onI)
    fix a b
    assume "g a = g b"
    then have "length (g a) = length (g b)" by simp
    then show "a = b" by (simp add: g_def)
  qed
  have "fset (example_values n) = g ` {0..<n}"
    by (simp add: example_values_def fset_of_list.rep_eq g_def)
  then show ?thesis
    by (simp add: fcard.rep_eq card_image inj)
qed

lemma example_values_chars: "v |\<in>| example_values n \<Longrightarrow> set v = {CHR ''x''}"
  by (auto simp add: example_values_def fset_of_list.rep_eq)

lemma ab_not_example_value: "''ab'' |\<notin>| example_values n"
  using example_values_chars [of "''ab''" n] by auto

lemma sint_bounds:
  fixes x :: int32
  shows "- 2147483648 \<le> sint x" and "sint x \<le> 2147483647"
  using sint_ge [of x] sint_lt [of x] by simp_all

lemma sint_add_no_wrap:
  fixes x y :: int32
  assumes "- 2147483648 \<le> sint x + sint y" and "sint x + sint y \<le> 2147483647"
  shows "sint (x + y) = sint x + sint y"
  using assms by (simp add: sint_word_ariths signed_take_bit_int_eq_self)

lemma sint_add_wrap:
  fixes x y :: int32
  assumes "2147483647 < sint x + sint y"
  shows "sint (x + y) = sint x + sint y - 4294967296"
proof -
  have ux: "sint x < 2147483648" and uy: "sint y < 2147483648"
    using sint_lt [of x] sint_lt [of y] by simp_all
  let ?k = "sint x + sint y"
  have "signed_take_bit 31 ?k = take_bit 32 (?k + 2147483648) - 2147483648"
    by (simp add: signed_take_bit_eq_take_bit_shift)
  also have "take_bit 32 (?k + 2147483648) = (?k + 2147483648) mod 4294967296"
    by (simp add: take_bit_eq_mod)
  also have "(?k + 2147483648) mod 4294967296 = ?k + 2147483648 - 4294967296"
  proof -
    have "(?k + 2147483648 - 4294967296) mod 4294967296 = ?k + 2147483648 - 4294967296"
      using assms ux uy by (intro mod_pos_pos_trivial) simp_all
    then show ?thesis
      using minus_mod_self2 [of "?k + 2147483648" 4294967296] by simp
  qed
  finally show ?thesis by (simp add: sint_word_ariths)
qed

lemma sint_max_int: "sint (max_int a b) = max (sint a) (sint b)"
  by (simp add: max_int_def word_sless_alt max_def)

lemma sint_top_cost: "sint (max_int kMinCost x) = max 100 (sint x)"
  by (simp add: sint_max_int kMinCost_def)

lemma no_wrap_not_less:
  fixes x k y :: int32
  assumes "0 \<le> sint k" and "sint x + sint k \<le> 2147483647" and "sint y \<le> sint x"
  shows "\<not> x + k <s y"
proof -
  have "sint (x + k) = sint x + sint k"
    using assms sint_bounds [of x] by (intro sint_add_no_wrap) simp_all
  with assms show ?thesis by (simp add: word_sless_alt)
qed

lemma no_wrap_less:
  fixes x k y :: int32
  assumes "0 \<le> sint k" and "sint x + sint k < sint y"
  shows "x + k <s y"
proof -
  have "sint (x + k) = sint x + sint k"
    using assms sint_bounds [of x] sint_bounds [of y] by (intro sint_add_no_wrap) simp_all
  with assms show ?thesis by (simp add: word_sless_alt)
qed

lemma name_cost_clause_wraps:
  assumes "0 \<le> sint y"
  shows "max_int kMinCost x + INT_MAX <s y"
proof -
  have "sint (max_int kMinCost x + INT_MAX) =
      sint (max_int kMinCost x) + sint INT_MAX - 4294967296"
    by (intro sint_add_wrap) (simp add: sint_top_cost INT_MAX_def)
  with assms sint_bounds [of "max_int kMinCost x"] show ?thesis
    by (simp add: word_sless_alt INT_MAX_def)
qed

subsection \<open>One call, test by test\<close>

lemma established_eq:
  "(if top_candidate f = None \<or> fcard (seen f) = 0
    then f\<lparr>top_candidate := Some c\<rparr> else f) = established f c"
  by (simp add: established_def)

lemma seen_established [simp]: "seen (established f c) = seen f"
  by (simp add: established_def)

lemma top_established:
  "top_candidate (established f c) =
     Some (case top_candidate f of None \<Rightarrow> c | Some t \<Rightarrow> if seen f = {||} then c else t)"
  by (cases "top_candidate f") (simp_all add: established_def)

lemma noisy_prefix_total: "\<exists>b. noisy_prefix P n c = Inr b"
  by (cases "nodes c") (auto simp add: noisy_prefix_def at_def)

lemma noisy_prefix_first: "noisy_prefix P 0 c = Inr False"
  by (simp add: noisy_prefix_def)

lemma noisy_prefix_False:
  assumes "\<not> (3 \<le> n \<and> 1 < length (nodes c) \<and>
              Node.lid (nodes c ! 0) = Node.rid (nodes c ! 0) \<and>
              IsNounPrefix P (Node.lid (nodes c ! 0)))"
  shows "noisy_prefix P n c = Inr False"
  using assms by (auto simp add: noisy_prefix_def at_def)

lemma internal_cs:
  "is_context_sensitive P c \<Longrightarrow> FilterCandidateInternal P f c = Inr (GOOD_CANDIDATE, f)"
  by (simp add: FilterCandidateInternal_def)

lemma internal_frame:
  assumes "\<not> is_context_sensitive P c"
  shows "\<exists>r. FilterCandidateInternal P f c = Inr (r, established f c)"
proof -
  obtain b where b: "noisy_prefix P (fcard (seen f)) c = Inr b"
    using noisy_prefix_total by blast
  show ?thesis
    unfolding FilterCandidateInternal_def Let_def established_eq top_established b
    using assms by (cases b) simp_all
qed

lemma internal_cap:
  assumes "\<not> is_context_sensitive P c" and "kMaxCandidatesSize \<le> fcard (seen f) + 1"
  shows "FilterCandidateInternal P f c = Inr (STOP_ENUMERATION, established f c)"
  unfolding FilterCandidateInternal_def Let_def established_eq top_established
  using assms by simp

lemma internal_seen:
  assumes "\<not> is_context_sensitive P c" and "fcard (seen f) + 1 < kMaxCandidatesSize"
    and "value c |\<in>| seen f"
  shows "FilterCandidateInternal P f c = Inr (BAD_CANDIDATE, established f c)"
  unfolding FilterCandidateInternal_def Let_def established_eq top_established
  using assms by simp

lemma internal_seen_before:
  assumes "\<not> is_context_sensitive P c" and "value c |\<in>| seen f"
  shows "FilterCandidateInternal P f c =
     Inr (if kMaxCandidatesSize \<le> fcard (seen f) + 1 then STOP_ENUMERATION else BAD_CANDIDATE,
          established f c)"
  using assms by (simp add: internal_cap internal_seen)

lemma internal_single_node:
  assumes "\<not> is_context_sensitive P c" and "fcard (seen f) + 1 < kMaxCandidatesSize"
    and "value c |\<notin>| seen f" and "length (nodes c) = 1"
  shows "FilterCandidateInternal P f c = Inr (GOOD_CANDIDATE, established f c)"
  unfolding FilterCandidateInternal_def Let_def established_eq top_established
  using assms by simp

lemma internal_single_char:
  assumes "\<not> is_context_sensitive P c" and "fcard (seen f) + 1 < kMaxCandidatesSize"
    and "value c |\<notin>| seen f" and "CharsLen P (value c) = 1"
  shows "FilterCandidateInternal P f c = Inr (GOOD_CANDIDATE, established f c)"
  unfolding FilterCandidateInternal_def Let_def established_eq top_established
  using assms by simp

lemma internal_lenient:
  assumes "\<not> is_context_sensitive P c" and "fcard (seen f) + 1 < kMaxCandidatesSize"
    and "value c |\<notin>| seen f" and "length (nodes c) \<noteq> 1" and "CharsLen P (value c) \<noteq> 1"
    and "top_candidate (established f c) = Some t"
    and "fcard (seen f) < 3" and "cost c <s max_int kMinCost (cost t) + 2302"
    and "structure_cost c <s 6907"
  shows "FilterCandidateInternal P f c = Inr (GOOD_CANDIDATE, established f c)"
  unfolding FilterCandidateInternal_def Let_def established_eq
  using assms by simp

text \<open>Past the first six tests and the noisy prefix the result depends on the costs only.\<close>

lemma internal_costs:
  assumes "\<not> is_context_sensitive P c" and "fcard (seen f) + 1 < kMaxCandidatesSize"
    and "value c |\<notin>| seen f" and "length (nodes c) \<noteq> 1" and "CharsLen P (value c) \<noteq> 1"
    and "top_candidate (established f c) = Some t"
    and "\<not> (fcard (seen f) < 3 \<and> cost c <s max_int kMinCost (cost t) + 2302 \<and>
            structure_cost c <s 6907)"
    and "noisy_prefix P (fcard (seen f)) c = Inr False"
  shows "FilterCandidateInternal P f c =
     Inr (if max_int kMinCost (cost t) +
               (if lid c = GetLastNameId P \<or> lid c = GetFirstNameId P
                then INT_MAX else kCostOffset) <s cost c \<and>
             max_int kMinCost (structure_cost t) + kMinStructureCostOffset <s structure_cost c
          then (if fcard (seen f) < kStopEnmerationCacheSize
                then BAD_CANDIDATE else STOP_ENUMERATION)
          else if max_int kMinCost (structure_cost t) + kStructureCostOffset <s structure_cost c
          then BAD_CANDIDATE else GOOD_CANDIDATE, established f c)"
  unfolding FilterCandidateInternal_def Let_def established_eq
  using assms by simp

lemma FilterCandidate_cs:
  assumes "is_context_sensitive P c"
  shows "FilterCandidate P f c = Inr (GOOD_CANDIDATE, f\<lparr>seen := finsert (value c) (seen f)\<rparr>)"
  using assms by (simp add: FilterCandidate_def internal_cs)

lemma FilterCandidate_non_cs:
  assumes "\<not> is_context_sensitive P c"
  shows "\<exists>r. FilterCandidate P f c =
           Inr (r, (established f c)\<lparr>seen :=
                  if r = GOOD_CANDIDATE then finsert (value c) (seen f) else seen f\<rparr>)"
proof -
  obtain r where "FilterCandidateInternal P f c = Inr (r, established f c)"
    using internal_frame [OF assms] by blast
  then have "FilterCandidate P f c =
      Inr (r, (established f c)\<lparr>seen :=
             if r = GOOD_CANDIDATE then finsert (value c) (seen f) else seen f\<rparr>)"
    by (simp add: FilterCandidate_def)
  then show ?thesis ..
qed

lemma FilterCandidate_result: "\<exists>r f'. FilterCandidate P f c = Inr (r, f')"
  using FilterCandidate_cs [of c P f] FilterCandidate_non_cs [of c P f] by (cases "is_context_sensitive P c") auto

lemma FilterCandidate_seen_before:
  assumes "\<not> is_context_sensitive P c" and "value c |\<in>| seen f"
  shows "FilterCandidate P f c =
     Inr (if kMaxCandidatesSize \<le> fcard (seen f) + 1 then STOP_ENUMERATION else BAD_CANDIDATE,
          established f c)"
  using internal_seen_before [OF assms] by (simp add: FilterCandidate_def)

lemma step_seen:
  assumes "FilterCandidate P f c = Inr (r, f')"
  shows "seen f' = (if r = GOOD_CANDIDATE then finsert (value c) (seen f) else seen f)"
proof (cases "is_context_sensitive P c")
  case True
  with assms show ?thesis by (auto simp add: FilterCandidate_cs)
next
  case False
  with assms FilterCandidate_non_cs [OF False, of f] show ?thesis by auto
qed

lemma step_top:
  assumes "FilterCandidate P f c = Inr (r, f')"
  shows "top_candidate f' =
    (if \<not> is_context_sensitive P c \<and> (top_candidate f = None \<or> seen f = {||})
     then Some c else top_candidate f)"
proof (cases "is_context_sensitive P c")
  case True
  with assms show ?thesis by (auto simp add: FilterCandidate_cs)
next
  case False
  with assms FilterCandidate_non_cs [OF False, of f] show ?thesis
    by (auto simp add: established_def)
qed

lemma step_new:
  assumes "FilterCandidate P f c = Inr (GOOD_CANDIDATE, f')" and "\<not> is_context_sensitive P c"
  shows "value c |\<notin>| seen f"
proof
  assume "value c |\<in>| seen f"
  from FilterCandidate_seen_before [OF assms(2) this] assms(1) show False
    by (simp split: if_splits)
qed

subsection \<open>The first call after a reset\<close>

lemma Reset_eq: "Reset f = NewCandidateFilter"
  by (simp add: Reset_def NewCandidateFilter_def)

lemma first_internal:
  assumes ncs: "\<not> is_context_sensitive P c"
    and sc: "sint (structure_cost c) \<le> 2147480194"
    and n: "length (nodes c) \<noteq> 1" and l: "CharsLen P (value c) \<noteq> 1"
    and f: "seen f = {||}"
  shows "FilterCandidateInternal P f c = Inr (GOOD_CANDIDATE, established f c)"
proof -
  have top: "top_candidate (established f c) = Some c"
    using f by (simp add: established_def)
  have card: "fcard (seen f) = 0" using f by simp
  let ?ts = "max_int kMinCost (structure_cost c)"
  have ts: "sint ?ts \<le> 2147480194" "sint (structure_cost c) \<le> sint ?ts"
    using sc by (simp_all add: sint_top_cost)
  have a: "\<not> ?ts + kMinStructureCostOffset <s structure_cost c"
    using ts by (intro no_wrap_not_less) (simp_all add: kMinStructureCostOffset_def)
  have b: "\<not> ?ts + kStructureCostOffset <s structure_cost c"
    using ts by (intro no_wrap_not_less) (simp_all add: kStructureCostOffset_def)
  show ?thesis
  proof (cases "cost c <s max_int kMinCost (cost c) + 2302 \<and> structure_cost c <s 6907")
    case True
    then show ?thesis
      using ncs n l top f by (intro internal_lenient [where t = c]) (simp_all add: kMaxCandidatesSize_def fcard_fempty)
  next
    case False
    have "FilterCandidateInternal P f c =
      Inr (if max_int kMinCost (cost c) +
               (if lid c = GetLastNameId P \<or> lid c = GetFirstNameId P
                then INT_MAX else kCostOffset) <s cost c \<and>
             ?ts + kMinStructureCostOffset <s structure_cost c
          then (if fcard (seen f) < kStopEnmerationCacheSize
                then BAD_CANDIDATE else STOP_ENUMERATION)
          else if ?ts + kStructureCostOffset <s structure_cost c
          then BAD_CANDIDATE else GOOD_CANDIDATE, established f c)"
      using ncs n l top f False
      by (intro internal_costs) (simp_all add: kMaxCandidatesSize_def noisy_prefix_first fcard_fempty)
    with a b show ?thesis by simp
  qed
qed

lemma first_non_cs_kept:
  assumes ncs: "\<not> is_context_sensitive P c" and f: "seen f = {||}"
    and c: "length (nodes c) = 1 \<or> CharsLen P (value c) = 1 \<or>
            sint (structure_cost c) \<le> 2147480194"
  shows "FilterCandidate P f c =
           Inr (GOOD_CANDIDATE, \<lparr>seen = {|value c|}, top_candidate = Some c\<rparr>)"
proof -
  have e: "fcard (seen f) = 0" "established f c = \<lparr>seen = {||}, top_candidate = Some c\<rparr>"
    using f by (simp_all add: established_def)
  have "FilterCandidateInternal P f c = Inr (GOOD_CANDIDATE, established f c)"
  proof (cases "length (nodes c) = 1")
    case True
    with ncs e f show ?thesis
      by (intro internal_single_node) (simp_all add: kMaxCandidatesSize_def fcard_fempty)
  next
    case n: False
    show ?thesis
    proof (cases "CharsLen P (value c) = 1")
      case True
      with ncs e f show ?thesis
        by (intro internal_single_char) (simp_all add: kMaxCandidatesSize_def fcard_fempty)
    next
      case l: False
      from c n l have "sint (structure_cost c) \<le> 2147480194" by simp
      with ncs n l f show ?thesis by (intro first_internal) simp_all
    qed
  qed
  with e f show ?thesis by (simp add: FilterCandidate_def)
qed

subsection \<open>Runs of calls\<close>

lemma feed_Cons:
  assumes "feed P f (c # cs) = Inr (rs, f'')"
  obtains r f' rs' where "FilterCandidate P f c = Inr (r, f')"
    and "feed P f' cs = Inr (rs', f'')" and "rs = r # rs'"
  using assms by (auto split: sum.splits prod.splits)

lemma feed_result: "\<exists>rs f'. feed P f cs = Inr (rs, f')"
proof (induction cs arbitrary: f)
  case Nil
  show ?case by simp
next
  case (Cons c cs)
  obtain r f1 where 1: "FilterCandidate P f c = Inr (r, f1)"
    using FilterCandidate_result by blast
  obtain rs f2 where "feed P f1 cs = Inr (rs, f2)"
    using Cons.IH by blast
  with 1 show ?case by simp
qed

lemma feed_length: "feed P f cs = Inr (rs, f') \<Longrightarrow> length rs = length cs"
proof (induction cs arbitrary: f rs)
  case Nil
  then show ?case by simp
next
  case (Cons c cs)
  from Cons.prems show ?case
    by (rule feed_Cons) (auto dest: Cons.IH)
qed

lemma feed_append:
  "feed P f (xs @ ys) =
     (case feed P f xs of
        Inl e \<Rightarrow> Inl e
      | Inr (rs, f') \<Rightarrow>
          (case feed P f' ys of
             Inl e \<Rightarrow> Inl e
           | Inr (rs', f'') \<Rightarrow> Inr (rs @ rs', f'')))"
  by (induction xs arbitrary: f) (auto split: sum.splits prod.splits)

lemma feed_nth:
  assumes "feed P f cs = Inr (rs, f')" and "j < length cs"
  shows "\<exists>fj fj'. feed P f (take j cs) = Inr (take j rs, fj) \<and>
           FilterCandidate P fj (cs ! j) = Inr (rs ! j, fj')"
  using assms
proof (induction cs arbitrary: f rs j)
  case Nil
  then show ?case by simp
next
  case (Cons c cs)
  from Cons.prems(1) obtain r f1 rs' where 1: "FilterCandidate P f c = Inr (r, f1)"
    and 2: "feed P f1 cs = Inr (rs', f')" and 3: "rs = r # rs'"
    by (rule feed_Cons)
  show ?case
  proof (cases j)
    case 0
    with 1 3 show ?thesis by simp
  next
    case (Suc k)
    with Cons.prems(2) have "k < length cs" by simp
    from Cons.IH [OF 2 this] obtain fj fj' where
      "feed P f1 (take k cs) = Inr (take k rs', fj)"
      "FilterCandidate P fj (cs ! k) = Inr (rs' ! k, fj')" by blast
    with 1 3 Suc show ?thesis by simp
  qed
qed

lemma accepted_Nil [simp]: "accepted [] [] = []"
  by (simp add: accepted_def)

lemma accepted_Cons [simp]:
  "accepted (r # rs) (c # cs) =
     (if r = GOOD_CANDIDATE then c # accepted rs cs else accepted rs cs)"
  by (simp add: accepted_def)

lemma length_accepted:
  "length rs = length cs \<Longrightarrow> length (accepted rs cs) = count_list rs GOOD_CANDIDATE"
  by (induction rs cs rule: list_induct2) simp_all

lemma nth_accepted:
  assumes "length rs = length cs" and "i < length cs" and "rs ! i = GOOD_CANDIDATE"
  shows "cs ! i \<in> set (accepted rs cs)"
proof -
  have "(rs ! i, cs ! i) \<in> set (zip rs cs)"
    using assms by (auto simp add: in_set_zip)
  with assms(3) show ?thesis
    by (force simp add: accepted_def)
qed

lemma feed_seen:
  "feed P f cs = Inr (rs, f') \<Longrightarrow>
   seen f' = seen f |\<union>| fset_of_list (map value (accepted rs cs))"
proof (induction cs arbitrary: f rs)
  case Nil
  then show ?case by auto
next
  case (Cons c cs)
  from Cons.prems obtain r f1 rs' where 1: "FilterCandidate P f c = Inr (r, f1)"
    and 2: "feed P f1 cs = Inr (rs', f')" and 3: "rs = r # rs'"
    by (rule feed_Cons)
  from Cons.IH [OF 2] step_seen [OF 1] 3 show ?case by auto
qed

lemma kept_value_seen:
  assumes run: "feed P (Reset f0) cs = Inr (rs, f)"
    and i: "i < length cs" "rs ! i = GOOD_CANDIDATE"
  shows "value (cs ! i) |\<in>| seen f"
proof -
  have "cs ! i \<in> set (accepted rs cs)"
    using feed_length [OF run] i by (rule nth_accepted)
  then show ?thesis
    using feed_seen [OF run] by (auto simp add: fset_of_list.rep_eq)
qed

lemma feed_distinct:
  assumes "feed P f cs = Inr (rs, f')" and "\<forall>c\<in>set cs. \<not> is_context_sensitive P c"
  shows "distinct (map value (accepted rs cs)) \<and>
         fset (seen f) \<inter> set (map value (accepted rs cs)) = {}"
  using assms
proof (induction cs arbitrary: f rs)
  case Nil
  then show ?case by auto
next
  case (Cons c cs)
  from Cons.prems(1) obtain r f1 rs' where 1: "FilterCandidate P f c = Inr (r, f1)"
    and 2: "feed P f1 cs = Inr (rs', f')" and 3: "rs = r # rs'"
    by (rule feed_Cons)
  from Cons.prems(2) have ncs: "\<not> is_context_sensitive P c"
    and rest: "\<forall>c\<in>set cs. \<not> is_context_sensitive P c" by simp_all
  note ih = Cons.IH [OF 2 rest]
  show ?case
  proof (cases "r = GOOD_CANDIDATE")
    case True
    with 1 ncs have "value c |\<notin>| seen f" by (auto dest: step_new)
    with ih step_seen [OF 1] True 3 show ?thesis by auto
  next
    case False
    with ih step_seen [OF 1] 3 show ?thesis by auto
  qed
qed

lemma feed_all_cs:
  assumes "\<forall>c\<in>set cs. is_context_sensitive P c"
  shows "feed P f cs =
     Inr (replicate (length cs) GOOD_CANDIDATE,
          f\<lparr>seen := seen f |\<union>| fset_of_list (map value cs)\<rparr>)"
  using assms
proof (induction cs arbitrary: f)
  case Nil
  show ?case by simp
next
  case (Cons c cs)
  then have c: "is_context_sensitive P c" and cs: "\<forall>c\<in>set cs. is_context_sensitive P c"
    by simp_all
  have "finsert (value c) (seen f) |\<union>| fset_of_list (map value cs) =
      seen f |\<union>| fset_of_list (map value (c # cs))"
    by auto
  with Cons.IH [OF cs] c show ?case
    by (simp add: FilterCandidate_cs)
qed

lemma feed_top_stable:
  assumes "feed P f cs = Inr (rs, f')" and "top_candidate f = Some t" and "seen f \<noteq> {||}"
  shows "top_candidate f' = Some t \<and> seen f' \<noteq> {||}"
  using assms
proof (induction cs arbitrary: f rs)
  case Nil
  then show ?case by simp
next
  case (Cons c cs)
  from Cons.prems(1) obtain r f1 rs' where 1: "FilterCandidate P f c = Inr (r, f1)"
    and 2: "feed P f1 cs = Inr (rs', f')"
    by (rule feed_Cons)
  from step_top [OF 1] step_seen [OF 1] Cons.prems(2,3)
  have "top_candidate f1 = Some t" and "seen f1 \<noteq> {||}"
    by (auto split: if_splits)
  with Cons.IH [OF 2] show ?case by blast
qed

lemma feed_top_source:
  assumes "feed P f cs = Inr (rs, f')" and "top_candidate f = Some t"
  shows "top_candidate f' = Some t \<or>
         (\<exists>c\<in>set cs. \<not> is_context_sensitive P c \<and> top_candidate f' = Some c)"
  using assms
proof (induction cs arbitrary: f rs t)
  case Nil
  then show ?case by simp
next
  case (Cons c cs)
  from Cons.prems(1) obtain r f1 rs' where 1: "FilterCandidate P f c = Inr (r, f1)"
    and 2: "feed P f1 cs = Inr (rs', f')"
    by (rule feed_Cons)
  show ?case
  proof (cases "top_candidate f1 = Some t")
    case True
    from Cons.IH [OF 2 True] show ?thesis by auto
  next
    case False
    with step_top [OF 1] Cons.prems(2)
    have c: "\<not> is_context_sensitive P c" and t1: "top_candidate f1 = Some c"
      by (auto split: if_splits)
    from Cons.IH [OF 2 t1] c show ?thesis by auto
  qed
qed

text \<open>The filters of the examples with many values are reached by context-sensitive candidates.\<close>

lemma example_values_reached:
  "feed example_P NewCandidateFilter
     (map (\<lambda>k. example_candidate (replicate (Suc k) CHR ''x'') 0 0 5 2) [0..<n])
   = Inr (replicate n GOOD_CANDIDATE, \<lparr>seen = example_values n, top_candidate = None\<rparr>)"
proof -
  let ?cs = "map (\<lambda>k. example_candidate (replicate (Suc k) CHR ''x'') 0 0 5 2) [0..<n]"
  have cs: "\<forall>c\<in>set ?cs. is_context_sensitive example_P c"
    by (simp add: example_P_def example_candidate_def)
  have vs: "map value ?cs = map (\<lambda>k. replicate (Suc k) CHR ''x'') [0..<n]"
    by (simp add: example_candidate_def)
  have "feed example_P NewCandidateFilter ?cs =
      Inr (replicate (length ?cs) GOOD_CANDIDATE,
           NewCandidateFilter\<lparr>seen :=
             seen NewCandidateFilter |\<union>| fset_of_list (map value ?cs)\<rparr>)"
    by (rule feed_all_cs [OF cs])
  then show ?thesis
    unfolding vs by (simp add: NewCandidateFilter_def example_values_def)
qed

section \<open>The claims\<close>

subsection \<open>C1: candidates with a name id\<close>

text \<open>
  C1 does not hold for the code. For a name id the offset is \<open>INT_MAX\<close>, and
  \<open>top_cost\<close> is at least 100, so \<open>top_cost + cost_offset\<close> always wraps around to a negative
  number (\<open>name_cost_clause_wraps\<close>): the first half of the test holds for every cost that
  is not negative, instead of for none. Here a last name with the cost of the top candidate
  and a structure cost 1152 above it is dropped when three values are kept, while the same
  candidate with another id is kept.
\<close>

theorem name_candidate_dropped_at_equal_cost:
  "lid (example_candidate ''ab'' 1000 2152 60 0) = GetLastNameId example_P \<and>
   FilterCandidate example_P
     \<lparr>seen = {|''x'', ''y'', ''z''|},
      top_candidate = Some (example_candidate ''x'' 1000 1000 5 0)\<rparr>
     (example_candidate ''ab'' 1000 2152 60 0)
   = Inr (BAD_CANDIDATE,
       \<lparr>seen = {|''x'', ''y'', ''z''|},
        top_candidate = Some (example_candidate ''x'' 1000 1000 5 0)\<rparr>) \<and>
   FilterCandidate example_P
     \<lparr>seen = {|''x'', ''y'', ''z''|},
      top_candidate = Some (example_candidate ''x'' 1000 1000 5 0)\<rparr>
     (example_candidate ''ab'' 1000 2152 5 0)
   = Inr (GOOD_CANDIDATE,
       \<lparr>seen = {|''ab'', ''x'', ''y'', ''z''|},
        top_candidate = Some (example_candidate ''x'' 1000 1000 5 0)\<rparr>)"
  by (simp add: filter_eval)

subsection \<open>C2: the limit on the number of candidates\<close>

text \<open>
  C2, as the code has it. The test of the context-sensitive bit comes before the test of
  the limit, so the limit stops candidates that are not context sensitive: for such a
  candidate, offered when \<open>seen_.size() + 1 >= 200\<close>, \<open>FilterCandidate\<close> returns
  \<open>STOP_ENUMERATION\<close> whatever its costs, and \<open>seen_\<close> stays as it is. (The filters of the
  two examples below are reached from a new filter: \<open>example_values_reached\<close>.)
\<close>

theorem cap_stops_enumeration:
  assumes "\<not> is_context_sensitive P c" and "kMaxCandidatesSize \<le> fcard (seen f) + 1"
  shows "FilterCandidate P f c = Inr (STOP_ENUMERATION, established f c)"
  using assms by (simp add: FilterCandidate_def internal_cap)

theorem cap_stops_enumeration_witness:
  "\<not> is_context_sensitive example_P (example_candidate ''ab'' 0 0 5 0) \<and>
   kMaxCandidatesSize \<le> fcard (example_values 199) + 1 \<and>
   FilterCandidate example_P \<lparr>seen = example_values 199, top_candidate = None\<rparr>
     (example_candidate ''ab'' 0 0 5 0)
   = Inr (STOP_ENUMERATION,
       \<lparr>seen = example_values 199, top_candidate = Some (example_candidate ''ab'' 0 0 5 0)\<rparr>)"
proof -
  have 1: "\<not> is_context_sensitive example_P (example_candidate ''ab'' 0 0 5 0)"
    by (simp add: example_P_def example_candidate_def)
  have 2: "kMaxCandidatesSize
      \<le> fcard (seen \<lparr>seen = example_values 199, top_candidate = None\<rparr>) + 1"
    by (simp add: fcard_example_values kMaxCandidatesSize_def)
  show ?thesis
    using 1 2 cap_stops_enumeration [OF 1 2] by (simp add: established_def)
qed

text \<open>
  The claim as it was stated fails for a context-sensitive candidate: with 200 values kept
  it is still a good candidate.
\<close>

theorem cap_context_sensitive_counterexample:
  "fcard (example_values 200) = 200 \<and>
   FilterCandidate example_P \<lparr>seen = example_values 200, top_candidate = None\<rparr>
     (example_candidate ''ab'' 0 0 5 2)
   = Inr (GOOD_CANDIDATE,
       \<lparr>seen = finsert ''ab'' (example_values 200), top_candidate = None\<rparr>)"
  by (simp add: fcard_example_values FilterCandidate_def FilterCandidateInternal_def
      example_P_def example_candidate_def)

subsection \<open>C3: a value is not kept twice\<close>

text \<open>
  C3, as the code has it. Let some calls since \<open>Reset\<close> be given, the \<open>i\<close>-th of which
  returned \<open>GOOD_CANDIDATE\<close>. A candidate with the same value that is not context sensitive
  is not good when it is offered next: it is a bad candidate, or stops the enumeration when
  the limit is reached. The same holds inside the run: no later call for such a candidate
  returned \<open>GOOD_CANDIDATE\<close>.
\<close>

theorem kept_value_not_kept_again:
  assumes run: "feed P (Reset f0) cs = Inr (rs, f)"
    and i: "i < length cs" "rs ! i = GOOD_CANDIDATE"
  shows "(\<not> is_context_sensitive P c \<and> value c = value (cs ! i) \<longrightarrow>
            FilterCandidate P f c =
              Inr (if kMaxCandidatesSize \<le> fcard (seen f) + 1
                   then STOP_ENUMERATION else BAD_CANDIDATE, established f c)) \<and>
         (\<forall>j. i < j \<and> j < length cs \<and> \<not> is_context_sensitive P (cs ! j) \<and>
               value (cs ! j) = value (cs ! i) \<longrightarrow> rs ! j \<noteq> GOOD_CANDIDATE)"
proof (intro conjI allI impI)
  assume "\<not> is_context_sensitive P c \<and> value c = value (cs ! i)"
  then show "FilterCandidate P f c =
      Inr (if kMaxCandidatesSize \<le> fcard (seen f) + 1
           then STOP_ENUMERATION else BAD_CANDIDATE, established f c)"
    using kept_value_seen [OF run i] by (intro FilterCandidate_seen_before) simp_all
next
  fix j
  assume j: "i < j \<and> j < length cs \<and> \<not> is_context_sensitive P (cs ! j) \<and>
    value (cs ! j) = value (cs ! i)"
  then obtain fj fj' where pre: "feed P (Reset f0) (take j cs) = Inr (take j rs, fj)"
    and call: "FilterCandidate P fj (cs ! j) = Inr (rs ! j, fj')"
    using feed_nth [OF run, of j] by blast
  have "value (take j cs ! i) |\<in>| seen fj"
    using j i by (intro kept_value_seen [OF pre]) simp_all
  with j have "value (cs ! j) |\<in>| seen fj" by simp
  from FilterCandidate_seen_before [OF _ this, of P] j call
  show "rs ! j \<noteq> GOOD_CANDIDATE" by (auto split: if_splits)
qed

theorem kept_value_not_kept_again_witness:
  "feed example_P (Reset NewCandidateFilter)
     [example_candidate ''ab'' 1000 1000 5 0, example_candidate ''ab'' 1000 1000 5 0]
   = Inr ([GOOD_CANDIDATE, BAD_CANDIDATE],
       \<lparr>seen = {|''ab''|}, top_candidate = Some (example_candidate ''ab'' 1000 1000 5 0)\<rparr>) \<and>
   FilterCandidate example_P
     \<lparr>seen = {|''ab''|}, top_candidate = Some (example_candidate ''ab'' 1000 1000 5 0)\<rparr>
     (example_candidate ''ab'' 50 50 7 0)
   = Inr (BAD_CANDIDATE,
       \<lparr>seen = {|''ab''|}, top_candidate = Some (example_candidate ''ab'' 1000 1000 5 0)\<rparr>)"
proof -
  let ?c = "example_candidate ''ab'' 1000 1000 5 0"
  let ?f = "\<lparr>seen = {|''ab''|}, top_candidate = Some ?c\<rparr>"
  have run: "feed example_P (Reset NewCandidateFilter) [?c, ?c]
      = Inr ([GOOD_CANDIDATE, BAD_CANDIDATE], ?f)"
    by (simp add: filter_eval Reset_def NewCandidateFilter_def)
  have c: "\<not> is_context_sensitive example_P (example_candidate ''ab'' 50 50 7 0) \<and>
      value (example_candidate ''ab'' 50 50 7 0) = value ([?c, ?c] ! 0)"
    by (simp add: example_P_def example_candidate_def)
  have "FilterCandidate example_P ?f (example_candidate ''ab'' 50 50 7 0) =
      Inr (if kMaxCandidatesSize \<le> fcard (seen ?f) + 1
           then STOP_ENUMERATION else BAD_CANDIDATE,
           established ?f (example_candidate ''ab'' 50 50 7 0))"
    using kept_value_not_kept_again [OF run, of 0 "example_candidate ''ab'' 50 50 7 0"] c
    by simp
  then have "FilterCandidate example_P ?f (example_candidate ''ab'' 50 50 7 0) =
      Inr (BAD_CANDIDATE, ?f)"
    by (simp add: kMaxCandidatesSize_def fcard_finsert_if fcard_fempty established_def)
  with run show ?thesis by simp
qed

text \<open>
  The claim as it was stated fails for a context-sensitive candidate: it is good although
  its value was kept by the call before.
\<close>

theorem kept_value_context_sensitive_counterexample:
  "value (example_candidate ''ab'' 1000 1000 5 0) = value (example_candidate ''ab'' 1000 1000 5 2) \<and>
   feed example_P (Reset NewCandidateFilter)
     [example_candidate ''ab'' 1000 1000 5 0, example_candidate ''ab'' 1000 1000 5 2]
   = Inr ([GOOD_CANDIDATE, GOOD_CANDIDATE],
       \<lparr>seen = {|''ab''|}, top_candidate = Some (example_candidate ''ab'' 1000 1000 5 0)\<rparr>)"
  by (simp add: filter_eval Reset_def NewCandidateFilter_def)

subsection \<open>C4: a value of one character\<close>

text \<open>
  C4, as the code has it. The tests of the limit and of the values seen come before the
  test of the single character. A candidate whose value is one character long is a good
  candidate when it is context sensitive, or when the limit is not reached and its value
  has not been kept before, however high its costs.
\<close>

theorem single_character_kept:
  assumes "CharsLen P (value c) = 1"
    and "is_context_sensitive P c \<or>
         (fcard (seen f) + 1 < kMaxCandidatesSize \<and> value c |\<notin>| seen f)"
  shows "FilterCandidate P f c =
     Inr (GOOD_CANDIDATE,
          (if is_context_sensitive P c then f else established f c)
            \<lparr>seen := finsert (value c) (seen f)\<rparr>)"
proof (cases "is_context_sensitive P c")
  case True
  then show ?thesis by (simp add: FilterCandidate_cs)
next
  case False
  with assms have "FilterCandidateInternal P f c = Inr (GOOD_CANDIDATE, established f c)"
    by (intro internal_single_char) simp_all
  with False show ?thesis by (simp add: FilterCandidate_def)
qed

theorem single_character_kept_witness:
  "CharsLen example_P (value (example_candidate ''a'' 2000000000 2000000000 5 0)) = 1 \<and>
   FilterCandidate example_P
     \<lparr>seen = {|''x'', ''y'', ''z''|},
      top_candidate = Some (example_candidate ''x'' 100 100 5 0)\<rparr>
     (example_candidate ''a'' 2000000000 2000000000 5 0)
   = Inr (GOOD_CANDIDATE,
       \<lparr>seen = {|''a'', ''x'', ''y'', ''z''|},
        top_candidate = Some (example_candidate ''x'' 100 100 5 0)\<rparr>)"
proof -
  let ?c = "example_candidate ''a'' 2000000000 2000000000 5 0"
  let ?f = "\<lparr>seen = {|''x'', ''y'', ''z''|},
      top_candidate = Some (example_candidate ''x'' 100 100 5 0)\<rparr>"
  have 1: "CharsLen example_P (value ?c) = 1"
    by (simp add: example_P_def example_candidate_def)
  have 2: "is_context_sensitive example_P ?c \<or>
         (fcard (seen ?f) + 1 < kMaxCandidatesSize \<and> value ?c |\<notin>| seen ?f)"
    by (simp add: example_candidate_def kMaxCandidatesSize_def fcard_finsert_if fcard_fempty)
  show ?thesis
    using 1 single_character_kept [OF 1 2]
    by (simp add: established_def example_P_def example_candidate_def)
qed

text \<open>
  The claim as it was stated fails for a value that is already kept: the second of two equal
  candidates of one character is a bad candidate.
\<close>

theorem single_character_seen_counterexample:
  "CharsLen example_P (value (example_candidate ''a'' 100 100 5 0)) = 1 \<and>
   feed example_P NewCandidateFilter
     [example_candidate ''a'' 100 100 5 0, example_candidate ''a'' 100 100 5 0]
   = Inr ([GOOD_CANDIDATE, BAD_CANDIDATE],
       \<lparr>seen = {|''a''|}, top_candidate = Some (example_candidate ''a'' 100 100 5 0)\<rparr>)"
  by (simp add: filter_eval NewCandidateFilter_def)

subsection \<open>C5: the top candidate of a request\<close>

text \<open>
  C5, as the code has it. In a request that starts with context-sensitive candidates \<open>pre\<close>
  followed by \<open>c0\<close>, the first that is not: \<open>top_candidate_\<close> is still \<open>NULL\<close> after \<open>pre\<close>
  and is \<open>c0\<close> after the call for \<open>c0\<close>. At the end of the request it is a candidate that is
  not context sensitive. It is still \<open>c0\<close> when a value was kept by the time the call for
  \<open>c0\<close> returned (\<open>pre\<close> is not empty or \<open>c0\<close> was good), whatever the costs of the later
  candidates; in particular when \<open>c0\<close> has one node, one character or a structure cost of
  at most \<open>INT_MAX - 3453\<close>. While \<open>seen_\<close> is empty, the assignment
  \<^verbatim>\<open>if (top_candidate_ == NULL || candidate_size == 0)\<close> replaces the top candidate.
\<close>

theorem top_candidate_of_request:
  assumes run: "feed P (Reset f0) (pre @ c0 # post) = Inr (rs, f)"
    and pre: "\<forall>c\<in>set pre. is_context_sensitive P c"
    and c0: "\<not> is_context_sensitive P c0"
  shows "feed P (Reset f0) pre =
           Inr (replicate (length pre) GOOD_CANDIDATE,
                \<lparr>seen = fset_of_list (map value pre), top_candidate = None\<rparr>) \<and>
         (\<exists>r1 f1. feed P (Reset f0) (pre @ [c0]) =
                     Inr (replicate (length pre) GOOD_CANDIDATE @ [r1], f1) \<and>
                  top_candidate f1 = Some c0) \<and>
         (\<exists>c\<in>set (c0 # post). \<not> is_context_sensitive P c \<and> top_candidate f = Some c) \<and>
         (pre \<noteq> [] \<or> rs ! length pre = GOOD_CANDIDATE \<longrightarrow> top_candidate f = Some c0) \<and>
         (length (nodes c0) = 1 \<or> CharsLen P (value c0) = 1 \<or>
          sint (structure_cost c0) \<le> 2147480194 \<longrightarrow> top_candidate f = Some c0)"
proof -
  let ?g = "\<lparr>seen = fset_of_list (map value pre), top_candidate = None\<rparr>"
  let ?goods = "replicate (length pre) GOOD_CANDIDATE"
  have p: "feed P (Reset f0) pre = Inr (?goods, ?g)"
    using feed_all_cs [OF pre, of "Reset f0"] by (simp add: Reset_def)
  obtain r1 f1 where call: "FilterCandidate P ?g c0 = Inr (r1, f1)"
    using FilterCandidate_result by blast
  have t1: "top_candidate f1 = Some c0"
    using step_top [OF call] c0 by simp
  have s1: "seen f1 = (if r1 = GOOD_CANDIDATE then finsert (value c0) (seen ?g) else seen ?g)"
    by (rule step_seen [OF call])
  have p1: "feed P (Reset f0) (pre @ [c0]) = Inr (?goods @ [r1], f1)"
    using p call by (simp add: feed_append)
  obtain rs' f' where rest: "feed P f1 post = Inr (rs', f')"
    using feed_result by blast
  have whole: "feed P (Reset f0) (pre @ c0 # post) = Inr (?goods @ r1 # rs', f')"
    using p call rest by (simp add: feed_append)
  with run have rs: "rs = ?goods @ r1 # rs'" and f: "f' = f" by simp_all
  have src: "\<exists>c\<in>set (c0 # post). \<not> is_context_sensitive P c \<and> top_candidate f = Some c"
    using feed_top_source [OF rest t1] c0 f by auto
  have stable: "top_candidate f = Some c0" if "seen f1 \<noteq> {||}"
    using feed_top_stable [OF rest t1 that] f by simp
  have kept: "top_candidate f = Some c0" if "pre \<noteq> [] \<or> rs ! length pre = GOOD_CANDIDATE"
  proof (rule stable)
    from that show "seen f1 \<noteq> {||}"
    proof
      assume "pre \<noteq> []"
      then have "fset_of_list (map value pre) \<noteq> {||}"
        by (cases pre) simp_all
      with s1 show ?thesis by (auto split: if_splits)
    next
      assume "rs ! length pre = GOOD_CANDIDATE"
      with rs have "r1 = GOOD_CANDIDATE" by (simp add: nth_append)
      with s1 show ?thesis by simp
    qed
  qed
  have bounded: "top_candidate f = Some c0"
    if b: "length (nodes c0) = 1 \<or> CharsLen P (value c0) = 1 \<or>
           sint (structure_cost c0) \<le> 2147480194"
  proof (cases "pre = []")
    case False
    then show ?thesis by (intro kept) simp
  next
    case True
    then have "seen ?g = {||}" by simp
    from first_non_cs_kept [OF c0 this b] call have "r1 = GOOD_CANDIDATE" by simp
    with rs show ?thesis by (intro kept) (simp add: nth_append)
  qed
  from p p1 t1 src kept bounded show ?thesis by blast
qed

theorem top_candidate_of_request_witness:
  "feed example_P (Reset NewCandidateFilter)
     [example_candidate ''p'' 9000 9000 5 2, example_candidate ''ab'' 1000 1000 5 0,
      example_candidate ''cd'' 50 50 5 0]
   = Inr ([GOOD_CANDIDATE, GOOD_CANDIDATE, GOOD_CANDIDATE],
       \<lparr>seen = {|''ab'', ''cd'', ''p''|},
        top_candidate = Some (example_candidate ''ab'' 1000 1000 5 0)\<rparr>) \<and>
   is_context_sensitive example_P (example_candidate ''p'' 9000 9000 5 2) \<and>
   \<not> is_context_sensitive example_P (example_candidate ''ab'' 1000 1000 5 0) \<and>
   sint (cost (example_candidate ''cd'' 50 50 5 0))
     < sint (cost (example_candidate ''ab'' 1000 1000 5 0))"
proof -
  let ?p = "example_candidate ''p'' 9000 9000 5 2"
  let ?c0 = "example_candidate ''ab'' 1000 1000 5 0"
  let ?c1 = "example_candidate ''cd'' 50 50 5 0"
  let ?f = "\<lparr>seen = {|''ab'', ''cd'', ''p''|}, top_candidate = Some ?c0\<rparr>"
  have run: "feed example_P (Reset NewCandidateFilter) ([?p] @ ?c0 # [?c1]) =
      Inr ([GOOD_CANDIDATE, GOOD_CANDIDATE, GOOD_CANDIDATE], ?f)"
    by (simp add: filter_eval Reset_def NewCandidateFilter_def finsert_commute)
  have pre: "\<forall>c\<in>set [?p]. is_context_sensitive example_P c"
    and c0: "\<not> is_context_sensitive example_P ?c0"
    by (simp_all add: example_P_def example_candidate_def)
  have "top_candidate ?f = Some ?c0"
    using top_candidate_of_request [OF run pre c0] by simp
  with run pre c0 show ?thesis
    by (simp add: example_candidate_def)
qed

text \<open>
  The claim as it was stated fails when the first candidate is dropped: the next candidate
  replaces it as the top candidate.
\<close>

theorem top_candidate_replaced_counterexample:
  "feed example_P (Reset NewCandidateFilter) [example_candidate ''ab'' 0 2147483647 5 0]
   = Inr ([BAD_CANDIDATE],
       \<lparr>seen = {||}, top_candidate = Some (example_candidate ''ab'' 0 2147483647 5 0)\<rparr>) \<and>
   feed example_P (Reset NewCandidateFilter)
     [example_candidate ''ab'' 0 2147483647 5 0, example_candidate ''cd'' 0 0 5 0]
   = Inr ([BAD_CANDIDATE, GOOD_CANDIDATE],
       \<lparr>seen = {|''cd''|}, top_candidate = Some (example_candidate ''cd'' 0 0 5 0)\<rparr>) \<and>
   example_candidate ''cd'' 0 0 5 0 \<noteq> example_candidate ''ab'' 0 2147483647 5 0"
  by (simp add: filter_eval Reset_def NewCandidateFilter_def)

subsection \<open>C6: the size of the set of values\<close>

text \<open>
  C6, as the code has it. The filter keeps no count of the good candidates; what its tests
  use is \<open>seen_.size()\<close>. After any calls since \<open>Reset\<close>, \<open>seen_\<close> is the set of the values of
  the candidates that were good, so its size is the number of different values among them.
  That is at most the number of calls that returned \<open>GOOD_CANDIDATE\<close>, and equal to it when
  no candidate was context sensitive.
\<close>

theorem seen_size_counts_values:
  assumes "feed P (Reset f0) cs = Inr (rs, f)"
  shows "seen f = fset_of_list (map value (accepted rs cs)) \<and>
         fcard (seen f) = card (value ` set (accepted rs cs)) \<and>
         length (accepted rs cs) = count_list rs GOOD_CANDIDATE \<and>
         fcard (seen f) \<le> count_list rs GOOD_CANDIDATE \<and>
         ((\<forall>c\<in>set cs. \<not> is_context_sensitive P c) \<longrightarrow>
            fcard (seen f) = count_list rs GOOD_CANDIDATE)"
proof -
  let ?vs = "map value (accepted rs cs)"
  have s: "seen f = fset_of_list ?vs"
    using feed_seen [OF assms] by (simp add: Reset_def)
  then have c: "fcard (seen f) = card (set ?vs)"
    by (simp add: fcard.rep_eq fset_of_list.rep_eq)
  have n: "length (accepted rs cs) = count_list rs GOOD_CANDIDATE"
    using feed_length [OF assms] by (rule length_accepted)
  have le: "card (set ?vs) \<le> length ?vs" by (rule card_length)
  have eq: "card (set ?vs) = length ?vs" if "\<forall>c\<in>set cs. \<not> is_context_sensitive P c"
  proof -
    from feed_distinct [OF assms that] have "distinct ?vs" by blast
    then show ?thesis by (rule distinct_card)
  qed
  from s c n le eq show ?thesis by simp
qed

theorem seen_size_counts_values_witness:
  "feed example_P (Reset NewCandidateFilter)
     [example_candidate ''x'' 1000 1000 5 0, example_candidate ''y'' 1000 1000 5 0]
   = Inr ([GOOD_CANDIDATE, GOOD_CANDIDATE],
       \<lparr>seen = {|''x'', ''y''|}, top_candidate = Some (example_candidate ''x'' 1000 1000 5 0)\<rparr>) \<and>
   fcard {|''x'', ''y''|} = count_list [GOOD_CANDIDATE, GOOD_CANDIDATE] GOOD_CANDIDATE"
proof -
  let ?cs = "[example_candidate ''x'' 1000 1000 5 0, example_candidate ''y'' 1000 1000 5 0]"
  let ?f = "\<lparr>seen = {|''x'', ''y''|},
    top_candidate = Some (example_candidate ''x'' 1000 1000 5 0)\<rparr>"
  have run: "feed example_P (Reset NewCandidateFilter) ?cs
      = Inr ([GOOD_CANDIDATE, GOOD_CANDIDATE], ?f)"
    by (simp add: filter_eval Reset_def NewCandidateFilter_def finsert_commute)
  have ncs: "\<forall>c\<in>set ?cs. \<not> is_context_sensitive example_P c"
    by (simp add: example_P_def example_candidate_def)
  from seen_size_counts_values [OF run] ncs
  have "fcard (seen ?f) = count_list [GOOD_CANDIDATE, GOOD_CANDIDATE] GOOD_CANDIDATE"
    by blast
  with run show ?thesis by simp
qed

text \<open>
  The claim as it was stated fails when a context-sensitive candidate repeats a value: two
  calls return \<open>GOOD_CANDIDATE\<close> and the set has one element.
\<close>

theorem seen_size_counts_values_counterexample:
  "feed example_P (Reset NewCandidateFilter)
     [example_candidate ''ab'' 1000 1000 5 2, example_candidate ''ab'' 1000 1000 5 2]
   = Inr ([GOOD_CANDIDATE, GOOD_CANDIDATE], \<lparr>seen = {|''ab''|}, top_candidate = None\<rparr>) \<and>
   count_list [GOOD_CANDIDATE, GOOD_CANDIDATE] GOOD_CANDIDATE = 2 \<and>
   fcard {|''ab''|} = 1"
  by (simp add: filter_eval Reset_def NewCandidateFilter_def)

subsection \<open>C7: the threshold on the cost\<close>

text \<open>
  C7. A candidate that is not context sensitive, is below the limit, has a new value, not
  exactly one node, not exactly one character, is not a noisy prefix and has no name id:
  when its cost is above \<open>max(100, top cost) + 6907\<close> and its structure cost is above
  \<open>max(100, top structure cost) + 1151\<close>, both as integers, it is a bad candidate while fewer
  than 15 values are kept and stops the enumeration from then on. (With such a cost the
  lenient test for the first three candidates cannot hold, so it is no hypothesis.)
  \<open>top_candidate_\<close> is the one the call compares with: the candidate itself when none was
  set or no value is kept.
\<close>

theorem cost_offset_threshold:
  assumes ncs: "\<not> is_context_sensitive P c"
    and cap: "fcard (seen f) + 1 < kMaxCandidatesSize"
    and new: "value c |\<notin>| seen f"
    and n: "length (nodes c) \<noteq> 1" and l: "CharsLen P (value c) \<noteq> 1"
    and noisy: "\<not> (3 \<le> fcard (seen f) \<and> 1 < length (nodes c) \<and>
              Node.lid (nodes c ! 0) = Node.rid (nodes c ! 0) \<and>
              IsNounPrefix P (Node.lid (nodes c ! 0)))"
    and name: "lid c \<noteq> GetLastNameId P" "lid c \<noteq> GetFirstNameId P"
    and top: "top_candidate (established f c) = Some t"
    and cost: "max 100 (sint (cost t)) + 6907 < sint (cost c)"
    and sc: "max 100 (sint (structure_cost t)) + 1151 < sint (structure_cost c)"
  shows "FilterCandidate P f c =
     Inr (if fcard (seen f) < 15 then BAD_CANDIDATE else STOP_ENUMERATION, established f c)"
proof -
  let ?tc = "max_int kMinCost (cost t)" and ?ts = "max_int kMinCost (structure_cost t)"
  have a: "?tc + kCostOffset <s cost c"
    using cost by (intro no_wrap_less) (simp_all add: sint_top_cost kCostOffset_def)
  have b: "?ts + kMinStructureCostOffset <s structure_cost c"
    using sc by (intro no_wrap_less) (simp_all add: sint_top_cost kMinStructureCostOffset_def)
  have "sint (?tc + 2302) = sint ?tc + sint (2302 :: int32)"
    using cost sint_bounds [of "cost c"] sint_bounds [of ?tc]
    by (intro sint_add_no_wrap) (simp_all add: sint_top_cost)
  with cost have lenient: "\<not> cost c <s ?tc + 2302"
    by (simp add: word_sless_alt sint_top_cost)
  have "FilterCandidateInternal P f c =
     Inr (if ?tc + (if lid c = GetLastNameId P \<or> lid c = GetFirstNameId P
                    then INT_MAX else kCostOffset) <s cost c \<and>
             ?ts + kMinStructureCostOffset <s structure_cost c
          then (if fcard (seen f) < kStopEnmerationCacheSize
                then BAD_CANDIDATE else STOP_ENUMERATION)
          else if ?ts + kStructureCostOffset <s structure_cost c
          then BAD_CANDIDATE else GOOD_CANDIDATE, established f c)"
    using ncs cap new n l top lenient noisy_prefix_False [OF noisy]
    by (intro internal_costs) simp_all
  with a b name have "FilterCandidateInternal P f c =
     Inr (if fcard (seen f) < 15 then BAD_CANDIDATE else STOP_ENUMERATION, established f c)"
    by (simp add: kStopEnmerationCacheSize_def)
  then show ?thesis by (simp add: FilterCandidate_def)
qed

text \<open>
  Scenario C, as a run of four calls and as one call, and scenario D: the same candidate
  when 15 values are kept.
\<close>

theorem cost_offset_threshold_witness:
  "feed example_P NewCandidateFilter
     [example_candidate ''x'' 1000 1000 5 0, example_candidate ''y'' 1000 1000 5 0,
      example_candidate ''z'' 1000 1000 5 0, example_candidate ''ab'' 7908 2152 5 0]
   = Inr ([GOOD_CANDIDATE, GOOD_CANDIDATE, GOOD_CANDIDATE, BAD_CANDIDATE],
       \<lparr>seen = {|''x'', ''y'', ''z''|},
        top_candidate = Some (example_candidate ''x'' 1000 1000 5 0)\<rparr>) \<and>
   FilterCandidate example_P
     \<lparr>seen = {|''x'', ''y'', ''z''|},
      top_candidate = Some (example_candidate ''x'' 1000 1000 5 0)\<rparr>
     (example_candidate ''ab'' 7908 2152 5 0)
   = Inr (BAD_CANDIDATE,
       \<lparr>seen = {|''x'', ''y'', ''z''|},
        top_candidate = Some (example_candidate ''x'' 1000 1000 5 0)\<rparr>) \<and>
   fcard (example_values 15) = 15 \<and>
   FilterCandidate example_P
     \<lparr>seen = example_values 15,
      top_candidate = Some (example_candidate ''x'' 1000 1000 5 0)\<rparr>
     (example_candidate ''ab'' 7908 2152 5 0)
   = Inr (STOP_ENUMERATION,
       \<lparr>seen = example_values 15,
        top_candidate = Some (example_candidate ''x'' 1000 1000 5 0)\<rparr>)"
proof -
  let ?t = "example_candidate ''x'' 1000 1000 5 0"
  let ?c = "example_candidate ''ab'' 7908 2152 5 0"
  let ?f = "\<lparr>seen = {|''x'', ''y'', ''z''|}, top_candidate = Some ?t\<rparr>"
  let ?g = "\<lparr>seen = example_values 15, top_candidate = Some ?t\<rparr>"
  have c: "\<not> is_context_sensitive example_P ?c" "length (nodes ?c) \<noteq> 1"
    "CharsLen example_P (value ?c) \<noteq> 1" "lid ?c \<noteq> GetLastNameId example_P"
    "lid ?c \<noteq> GetFirstNameId example_P"
    "max 100 (sint (cost ?t)) + 6907 < sint (cost ?c)"
    "max 100 (sint (structure_cost ?t)) + 1151 < sint (structure_cost ?c)"
    by (simp_all add: example_P_def example_candidate_def)
  have noisy: "\<not> (3 \<le> k \<and> 1 < length (nodes ?c) \<and>
      Node.lid (nodes ?c ! 0) = Node.rid (nodes ?c ! 0) \<and>
      IsNounPrefix example_P (Node.lid (nodes ?c ! 0)))" for k
    by (simp add: example_candidate_def)
  have f: "fcard (seen ?f) + 1 < kMaxCandidatesSize" "value ?c |\<notin>| seen ?f"
    "top_candidate (established ?f ?c) = Some ?t" "fcard (seen ?f) = 3"
    by (simp_all add: kMaxCandidatesSize_def fcard_finsert_if fcard_fempty established_def
        example_candidate_def)
  have ne: "example_values 15 \<noteq> {||}"
    using fcard_example_values [of 15] by (auto simp add: fcard_fempty)
  have g: "fcard (seen ?g) + 1 < kMaxCandidatesSize" "value ?c |\<notin>| seen ?g"
    "top_candidate (established ?g ?c) = Some ?t" "fcard (seen ?g) = 15"
    using ab_not_example_value [of 15] ne
    by (simp_all add: kMaxCandidatesSize_def fcard_example_values established_def
        example_candidate_def)
  have run: "feed example_P NewCandidateFilter
     [?t, example_candidate ''y'' 1000 1000 5 0, example_candidate ''z'' 1000 1000 5 0, ?c]
     = Inr ([GOOD_CANDIDATE, GOOD_CANDIDATE, GOOD_CANDIDATE, BAD_CANDIDATE], ?f)"
    by (simp add: filter_eval NewCandidateFilter_def finsert_commute)
  have ef: "established ?f ?c = ?f" and eg: "established ?g ?c = ?g"
    using ne by (simp_all add: established_def)
  have C: "FilterCandidate example_P ?f ?c = Inr (BAD_CANDIDATE, ?f)"
    using cost_offset_threshold [OF c(1) f(1) f(2) c(2) c(3) noisy c(4) c(5) f(3) c(6) c(7)]
    unfolding ef f(4) by simp
  have D: "FilterCandidate example_P ?g ?c = Inr (STOP_ENUMERATION, ?g)"
    using cost_offset_threshold [OF c(1) g(1) g(2) c(2) c(3) noisy c(4) c(5) g(3) c(6) c(7)]
    unfolding eg g(4) by simp
  show ?thesis
    by (intro conjI run C D fcard_example_values)
qed

subsection \<open>C8: what a call changes\<close>

text \<open>
  C8, as the code has it. A call returns a result and a filter. For a good candidate \<open>seen_\<close>
  is the old set with the candidate's value inserted; its size grows by one exactly when
  the value is new, which it always is for a candidate that is not context sensitive, and
  stays as it is when a context-sensitive candidate repeats a kept value. For a bad
  candidate and for \<open>STOP_ENUMERATION\<close> the set and its size are the old ones.
  \<open>top_candidate_\<close> is the old pointer or the candidate. The filter has no other member, and
  the candidate is an argument that the call does not return, so nothing else changes.
\<close>

theorem FilterCandidate_frame:
  "\<exists>r f'. FilterCandidate P f c = Inr (r, f') \<and>
     seen f' = (if r = GOOD_CANDIDATE then finsert (value c) (seen f) else seen f) \<and>
     top_candidate f' =
       (if \<not> is_context_sensitive P c \<and> (top_candidate f = None \<or> seen f = {||})
        then Some c else top_candidate f) \<and>
     fcard (seen f') =
       (if r = GOOD_CANDIDATE \<and> value c |\<notin>| seen f then fcard (seen f) + 1
        else fcard (seen f)) \<and>
     (r = GOOD_CANDIDATE \<and> \<not> is_context_sensitive P c \<longrightarrow> value c |\<notin>| seen f)"
proof (cases "is_context_sensitive P c")
  case True
  then show ?thesis
    by (simp add: FilterCandidate_cs fcard_finsert_if)
next
  case False
  then obtain r where r: "FilterCandidate P f c =
      Inr (r, (established f c)\<lparr>seen :=
             if r = GOOD_CANDIDATE then finsert (value c) (seen f) else seen f\<rparr>)"
    using FilterCandidate_non_cs by blast
  have new: "value c |\<notin>| seen f" if "r = GOOD_CANDIDATE"
  proof
    assume "value c |\<in>| seen f"
    from FilterCandidate_seen_before [OF False this] r that show False
      by (simp split: if_splits)
  qed
  have top: "top_candidate (established f c) =
      (if top_candidate f = None \<or> seen f = {||} then Some c else top_candidate f)"
    by (simp add: established_def)
  show ?thesis
    using False r new top by (auto simp add: fcard_finsert_if)
qed

theorem FilterCandidate_frame_witness:
  "FilterCandidate example_P
     \<lparr>seen = {|''x''|}, top_candidate = Some (example_candidate ''x'' 100 100 5 0)\<rparr>
     (example_candidate ''ab'' 200 200 5 0)
   = Inr (GOOD_CANDIDATE,
       \<lparr>seen = {|''ab'', ''x''|}, top_candidate = Some (example_candidate ''x'' 100 100 5 0)\<rparr>) \<and>
   fcard {|''ab'', ''x''|} = fcard {|''x''|} + 1 \<and>
   FilterCandidate example_P
     \<lparr>seen = {|''x''|}, top_candidate = Some (example_candidate ''x'' 100 100 5 0)\<rparr>
     (example_candidate ''x'' 200 200 5 0)
   = Inr (BAD_CANDIDATE,
       \<lparr>seen = {|''x''|}, top_candidate = Some (example_candidate ''x'' 100 100 5 0)\<rparr>)"
  using FilterCandidate_frame [of example_P
     "\<lparr>seen = {|''x''|}, top_candidate = Some (example_candidate ''x'' 100 100 5 0)\<rparr>"
     "example_candidate ''ab'' 200 200 5 0"]
  by (simp add: filter_eval)

text \<open>
  The claim as it was stated fails for the size of \<open>seen_\<close>: a context-sensitive candidate
  whose value is already kept is a good candidate, and the set and its size stay as they
  are. The filter of the example is the one after the first such call of a request.
\<close>

theorem FilterCandidate_size_unchanged_counterexample:
  "feed example_P (Reset NewCandidateFilter) [example_candidate ''ab'' 1000 1000 5 2]
   = Inr ([GOOD_CANDIDATE], \<lparr>seen = {|''ab''|}, top_candidate = None\<rparr>) \<and>
   FilterCandidate example_P \<lparr>seen = {|''ab''|}, top_candidate = None\<rparr>
     (example_candidate ''ab'' 1000 1000 5 2)
   = Inr (GOOD_CANDIDATE, \<lparr>seen = {|''ab''|}, top_candidate = None\<rparr>) \<and>
   fcard (finsert (value (example_candidate ''ab'' 1000 1000 5 2)) {|''ab''|}) = fcard {|''ab''|} \<and>
   fcard {|''ab''|} = 1"
  by (simp add: filter_eval Reset_def NewCandidateFilter_def)

subsection \<open>C9: the first call of a request\<close>

text \<open>
  C9, as the code has it. After \<open>Reset\<close> (a new filter is the same: \<open>Reset_eq\<close>) the first
  candidate is compared with itself. It is a good candidate when it is context sensitive,
  has one node or one character, or has a structure cost of at most
  \<open>INT_MAX - 3453 = 2147480194\<close>, whatever its cost, its ids and the number of its nodes.
  Above that structure cost the sum \<open>top_structure_cost + kStructureCostOffset\<close> does not fit
  in 32 bits; the statement says nothing about such candidates.
\<close>

theorem first_candidate_kept:
  assumes "is_context_sensitive P c \<or> length (nodes c) = 1 \<or> CharsLen P (value c) = 1 \<or>
           sint (structure_cost c) \<le> 2147480194"
  shows "FilterCandidate P (Reset f0) c =
     Inr (GOOD_CANDIDATE,
          \<lparr>seen = {|value c|},
           top_candidate = (if is_context_sensitive P c then None else Some c)\<rparr>)"
proof (cases "is_context_sensitive P c")
  case True
  then show ?thesis by (simp add: FilterCandidate_cs Reset_def)
next
  case False
  with assms have b: "length (nodes c) = 1 \<or> CharsLen P (value c) = 1 \<or>
      sint (structure_cost c) \<le> 2147480194"
    by simp
  have "seen (Reset f0) = {||}" by (simp add: Reset_def)
  from first_non_cs_kept [OF False this b] False show ?thesis by simp
qed

theorem first_candidate_kept_witness:
  "sint (structure_cost (example_candidate ''ab'' 2147483647 2147480194 60 0)) \<le> 2147480194 \<and>
   FilterCandidate example_P (Reset NewCandidateFilter)
     (example_candidate ''ab'' 2147483647 2147480194 60 0)
   = Inr (GOOD_CANDIDATE,
       \<lparr>seen = {|''ab''|},
        top_candidate = Some (example_candidate ''ab'' 2147483647 2147480194 60 0)\<rparr>)"
proof -
  let ?c = "example_candidate ''ab'' 2147483647 2147480194 60 0"
  have 1: "sint (structure_cost ?c) \<le> 2147480194"
    by (simp add: example_candidate_def)
  then have 2: "is_context_sensitive example_P ?c \<or> length (nodes ?c) = 1 \<or>
      CharsLen example_P (value ?c) = 1 \<or> sint (structure_cost ?c) \<le> 2147480194"
    by simp
  show ?thesis
    using 1 first_candidate_kept [OF 2, of NewCandidateFilter]
    by (simp add: example_P_def example_candidate_def)
qed

text \<open>
  The claim as it was stated fails at the largest structure cost: the sum wraps around to a
  negative number and the candidate is dropped although it is compared with itself.
\<close>

theorem first_candidate_dropped_counterexample:
  "FilterCandidate example_P (Reset NewCandidateFilter)
     (example_candidate ''ab'' 0 2147483647 5 0)
   = Inr (BAD_CANDIDATE,
       \<lparr>seen = {||}, top_candidate = Some (example_candidate ''ab'' 0 2147483647 5 0)\<rparr>)"
  by (simp add: filter_eval Reset_def NewCandidateFilter_def)

subsection \<open>C10: no read past the end of the nodes\<close>

text \<open>
  C10. \<open>FilterCandidate\<close> returns a result for every filter and every candidate, also for a
  candidate with no node: the test of the noisy prefix reads \<open>nodes[0]\<close> only after
  \<open>nodes.size() > 1\<close>, so it never reads past the end of the vector, and
  \<open>CHECK(top_candidate_)\<close> never aborts.
\<close>

theorem FilterCandidate_never_fails:
  "(\<exists>b. noisy_prefix P n c = Inr b) \<and>
   (\<exists>r f'. FilterCandidateInternal P f c = Inr (r, f')) \<and>
   (\<exists>r f'. FilterCandidate P f c = Inr (r, f'))"
proof (cases "is_context_sensitive P c")
  case True
  then show ?thesis
    using noisy_prefix_total [of P n c] by (simp add: FilterCandidate_cs internal_cs)
next
  case False
  then show ?thesis
    using noisy_prefix_total [of P n c] internal_frame [OF False, of f]
      FilterCandidate_non_cs [OF False, of f]
    by blast
qed

text \<open>A candidate with no node, offered when three values are kept: it is dropped for its costs.\<close>

theorem FilterCandidate_never_fails_witness:
  "nodes (example_empty_candidate ''ab'' 9000 9000) = [] \<and>
   noisy_prefix example_P 3 (example_empty_candidate ''ab'' 9000 9000) = Inr False \<and>
   FilterCandidate example_P
     \<lparr>seen = {|''x'', ''y'', ''z''|},
      top_candidate = Some (example_candidate ''x'' 1000 1000 5 0)\<rparr>
     (example_empty_candidate ''ab'' 9000 9000)
   = Inr (BAD_CANDIDATE,
       \<lparr>seen = {|''x'', ''y'', ''z''|},
        top_candidate = Some (example_candidate ''x'' 1000 1000 5 0)\<rparr>)"
  using FilterCandidate_never_fails [of example_P 3 "example_empty_candidate ''ab'' 9000 9000"
    "\<lparr>seen = {|''x'', ''y'', ''z''|},
      top_candidate = Some (example_candidate ''x'' 1000 1000 5 0)\<rparr>"]
  by (simp add: filter_eval)

end
